theory Spec2Isabelle
  imports Main "HOL-Library.Word"
begin

section \<open>cam2image: data model\<close>

text \<open>
  The program is \<^verbatim>\<open>src/cam2image.cpp\<close>: a loop that grabs a \<^verbatim>\<open>cv::Mat\<close> from a
  capture device, optionally mirrors it, converts it to a \<^verbatim>\<open>sensor_msgs::msg::Image\<close>
  and publishes it, then services the \<^verbatim>\<open>flip_image\<close> subscription and sleeps.
\<close>

type_synonym byte = "8 word"

text \<open>\<^verbatim>\<open>size_t\<close> on the LP64 platforms the program is built for.\<close>

type_synonym size_t = "64 word"

text \<open>
  \<^verbatim>\<open>cv::Mat\<close> as the program reads it: \<^verbatim>\<open>rows\<close>, \<^verbatim>\<open>cols\<close> and \<^verbatim>\<open>type()\<close> are C++
  \<^verbatim>\<open>int\<close>s, \<^verbatim>\<open>step\<close> is the number of bytes of one row (a \<^verbatim>\<open>size_t\<close>), \<^verbatim>\<open>data\<close> is the
  payload the data pointer points to (the empty list for a null pointer).
\<close>

record Mat =
  rows :: int
  cols :: int
  type :: int
  step :: nat
  data :: "byte list"

text \<open>
  \<^verbatim>\<open>sensor_msgs::msg::Image\<close>: \<^verbatim>\<open>height\<close>, \<^verbatim>\<open>width\<close> and \<^verbatim>\<open>step\<close> are \<^verbatim>\<open>uint32\<close> fields,
  \<^verbatim>\<open>data\<close> is a byte vector owned by the message, \<^verbatim>\<open>header.frame_id\<close> a string.
\<close>

record Image =
  height :: "32 word"
  width :: "32 word"
  encoding :: string
  is_bigendian :: bool
  msg_step :: "32 word"
  msg_data :: "byte list"
  header_frame_id :: string

text \<open>
  The exceptions and faults of the program: \<^verbatim>\<open>std::runtime_error\<close> with its message, and
  the out-of-bounds read \<^verbatim>\<open>memcpy\<close> would make on a matrix whose payload is shorter than
  \<^verbatim>\<open>step * rows\<close>.
\<close>

datatype error = runtime_error string | out_of_bounds_read

definition UnsupportedEncoding :: error where
  "UnsupportedEncoding = runtime_error ''Unsupported encoding type''"

section \<open>OpenCV's type codes\<close>

text \<open>
  The macros of \<^verbatim>\<open>opencv2/core/hal/interface.h\<close> (OpenCV, not part of this repository):
  a type code is \<^verbatim>\<open>(depth & 7) + ((cn - 1) << 3)\<close>, with the depth codes
  \<^verbatim>\<open>CV_8U = 0\<close>, \<^verbatim>\<open>CV_8S = 1\<close>, \<^verbatim>\<open>CV_16U = 2\<close>, \<^verbatim>\<open>CV_16S = 3\<close>, \<^verbatim>\<open>CV_32S = 4\<close>,
  \<^verbatim>\<open>CV_32F = 5\<close>, \<^verbatim>\<open>CV_64F = 6\<close>, \<^verbatim>\<open>CV_16F = 7\<close>.
\<close>

datatype depth = CV_8U | CV_8S | CV_16U | CV_16S | CV_32S | CV_32F | CV_64F | CV_16F

fun depth_code :: "depth \<Rightarrow> int" where
  "depth_code CV_8U = 0"
| "depth_code CV_8S = 1"
| "depth_code CV_16U = 2"
| "depth_code CV_16S = 3"
| "depth_code CV_32S = 4"
| "depth_code CV_32F = 5"
| "depth_code CV_64F = 6"
| "depth_code CV_16F = 7"

text \<open>Bytes of one sample of a depth.\<close>

fun depth_bytes :: "depth \<Rightarrow> nat" where
  "depth_bytes CV_8U = 1"
| "depth_bytes CV_8S = 1"
| "depth_bytes CV_16U = 2"
| "depth_bytes CV_16S = 2"
| "depth_bytes CV_32S = 4"
| "depth_bytes CV_32F = 4"
| "depth_bytes CV_64F = 8"
| "depth_bytes CV_16F = 2"

definition CV_MAKETYPE :: "depth \<Rightarrow> nat \<Rightarrow> int" where
  "CV_MAKETYPE d cn = depth_code d + (int cn - 1) * 8"

definition CV_8UC1 :: int where "CV_8UC1 = CV_MAKETYPE CV_8U 1"
definition CV_8UC3 :: int where "CV_8UC3 = CV_MAKETYPE CV_8U 3"
definition CV_16SC1 :: int where "CV_16SC1 = CV_MAKETYPE CV_16S 1"
definition CV_8UC4 :: int where "CV_8UC4 = CV_MAKETYPE CV_8U 4"

text \<open>\<^verbatim>\<open>CV_MAT_DEPTH\<close>, \<^verbatim>\<open>CV_MAT_CN\<close> and \<^verbatim>\<open>CV_ELEM_SIZE\<close>: the bytes of one pixel.\<close>

definition CV_MAT_DEPTH :: "int \<Rightarrow> depth" where
  "CV_MAT_DEPTH t =
     [CV_8U, CV_8S, CV_16U, CV_16S, CV_32S, CV_32F, CV_64F, CV_16F] ! nat (t mod 8)"

definition CV_MAT_CN :: "int \<Rightarrow> nat" where
  "CV_MAT_CN t = nat ((t div 8) mod 512) + 1"

definition CV_ELEM_SIZE :: "int \<Rightarrow> nat" where
  "CV_ELEM_SIZE t = CV_MAT_CN t * depth_bytes (CV_MAT_DEPTH t)"

section \<open>The encoding resolver\<close>

text \<open>\<^verbatim>\<open>mat_type2encoding\<close>, lines 37 to 52: a switch on the type code.\<close>

definition mat_type2encoding :: "int \<Rightarrow> error + string" where
  "mat_type2encoding mat_type =
     (if mat_type = CV_8UC1 then Inr ''mono8''
      else if mat_type = CV_8UC3 then Inr ''bgr8''
      else if mat_type = CV_16SC1 then Inr ''mono16''
      else if mat_type = CV_8UC4 then Inr ''rgba8''
      else Inl (runtime_error ''Unsupported encoding type''))"

section \<open>The message builder\<close>

text \<open>
  \<^verbatim>\<open>std::to_string\<close> on an unsigned integer (the C++ standard library): the decimal
  digits, most significant first, no sign and no leading zero.
\<close>

definition digit_char :: "nat \<Rightarrow> char" where
  "digit_char d = ''0123456789'' ! d"

fun to_string :: "nat \<Rightarrow> string" where
  "to_string n =
     (if n < 10 then [digit_char n] else to_string (n div 10) @ [digit_char (n mod 10)])"

declare to_string.simps [simp del]

text \<open>Reading a decimal string back, to say what "decimal form" means.\<close>

definition decimal_value :: "string \<Rightarrow> nat" where
  "decimal_value s = foldl (\<lambda>a c. 10 * a + (of_char c - 48)) 0 s"

text \<open>
  \<^verbatim>\<open>convert_frame_to_message\<close>, lines 60 to 72. The assignments to \<^verbatim>\<open>msg.height\<close> and
  \<^verbatim>\<open>msg.width\<close> convert an \<^verbatim>\<open>int\<close> to \<^verbatim>\<open>uint32\<close>, the \<^verbatim>\<open>static_cast\<close> narrows the
  \<^verbatim>\<open>size_t\<close> step to \<^verbatim>\<open>uint32\<close>, and \<^verbatim>\<open>size\<close> (here \<open>sz\<close>) is a \<^verbatim>\<open>size_t\<close> product. The resolver's
  exception leaves the function before \<^verbatim>\<open>msg.step\<close> and the payload are written.
  \<^verbatim>\<open>memcpy\<close> reads \<^verbatim>\<open>size\<close> bytes from the matrix payload into the message's own vector.
\<close>

definition convert_frame_to_message :: "Mat \<Rightarrow> size_t \<Rightarrow> Image \<Rightarrow> error + Image" where
  "convert_frame_to_message frame frame_id msg =
     (let msg = msg\<lparr>height := word_of_int (rows frame)\<rparr>;
          msg = msg\<lparr>width := word_of_int (cols frame)\<rparr>
      in case mat_type2encoding (type frame) of
           Inl e \<Rightarrow> Inl e
         | Inr enc \<Rightarrow>
             let msg = msg\<lparr>encoding := enc\<rparr>;
                 msg = msg\<lparr>msg_step := word_of_nat (step frame)\<rparr>;
                 sz = unat ((word_of_nat (step frame) :: size_t) * word_of_int (rows frame))
             in if length (data frame) < sz then Inl out_of_bounds_read
                else Inr (msg\<lparr>msg_data := take sz (data frame),
                              header_frame_id := to_string (unat frame_id)\<rparr>))"

text \<open>
  The invariant of a pixel buffer (the spec's data model, section 3): a row holds at
  least \<^verbatim>\<open>cols\<close> pixels and the payload is \<^verbatim>\<open>step * rows\<close> bytes.
\<close>

definition PixelBuffer_invariant :: "Mat \<Rightarrow> bool" where
  "PixelBuffer_invariant m \<longleftrightarrow>
     nat (cols m) * CV_ELEM_SIZE (type m) \<le> step m \<and>
     length (data m) = step m * nat (rows m)"


section \<open>The mirror transform\<close>

text \<open>Row \<open>r\<close> of a matrix: \<^verbatim>\<open>step\<close> bytes from offset \<^verbatim>\<open>r * step\<close>.\<close>

definition mat_row :: "Mat \<Rightarrow> nat \<Rightarrow> byte list" where
  "mat_row m r = take (step m) (drop (r * step m) (data m))"

text \<open>The first \<open>n\<close> pixels of a row, \<open>es\<close> bytes each.\<close>

definition row_pixels :: "nat \<Rightarrow> nat \<Rightarrow> byte list \<Rightarrow> byte list list" where
  "row_pixels n es row = map (\<lambda>c. take es (drop (c * es) row)) [0..<n]"

text \<open>
  Modelled from the spec: one row of \<^verbatim>\<open>cv::flip\<close> with flip code 1, which is OpenCV's
  and not part of this repository. The spec, section 4.4: "only pixel order reverses
  within each row". The \<open>n\<close> pixels of the row appear in reverse order; the bytes after
  them, the padding of the row, stay.
\<close>

definition flip_row :: "nat \<Rightarrow> nat \<Rightarrow> byte list \<Rightarrow> byte list" where
  "flip_row n es row = concat (rev (row_pixels n es row)) @ drop (n * es) row"

text \<open>
  Modelled from the spec: \<^verbatim>\<open>cv::flip(src, dst, 1)\<close>, which is OpenCV's and not part of
  this repository, as the function from the source matrix to the destination. The spec,
  section 4.4: the transform "mirrors the PixelBuffer horizontally, preserving all other
  metadata and recomputing no new stride/encoding (mirroring is defined as identity on
  buffer shape, only pixel order reverses within each row)". So the destination has the
  source's \<^verbatim>\<open>rows\<close>, \<^verbatim>\<open>cols\<close>, \<^verbatim>\<open>type\<close> and \<^verbatim>\<open>step\<close>, and each of its rows is the
  source's row with the pixels in reverse order.
\<close>

definition cv_flip :: "Mat \<Rightarrow> Mat" where
  "cv_flip src =
     src\<lparr>data := concat (map (\<lambda>r. flip_row (nat (cols src)) (CV_ELEM_SIZE (type src))
                                   (mat_row src r)) [0..<nat (rows src)])\<rparr>"

text \<open>The pixel at row \<open>r\<close> and column \<open>c\<close>: \<^verbatim>\<open>CV_ELEM_SIZE\<close> bytes at \<^verbatim>\<open>r * step + c * elemSize\<close>.\<close>

definition pixel_at :: "Mat \<Rightarrow> nat \<Rightarrow> nat \<Rightarrow> byte list" where
  "pixel_at m r c =
     take (CV_ELEM_SIZE (type m)) (drop (r * step m + c * CV_ELEM_SIZE (type m)) (data m))"

section \<open>The publisher loop\<close>

text \<open>
  \<^verbatim>\<open>cv::Mat::empty()\<close> (OpenCV): the data pointer is null or the matrix has no element.
\<close>

definition Mat_empty :: "Mat \<Rightarrow> bool" where
  "Mat_empty m \<longleftrightarrow> data m = [] \<or> rows m * cols m = 0"

text \<open>A default-constructed \<^verbatim>\<open>cv::Mat\<close> and a value-initialised message.\<close>

definition Mat_init :: Mat where
  "Mat_init = \<lparr>rows = 0, cols = 0, type = 0, step = 0, data = []\<rparr>"

definition Image_init :: Image where
  "Image_init = \<lparr>height = 0, width = 0, encoding = [], is_bigendian = False,
                 msg_step = 0, msg_data = [], header_frame_id = []\<rparr>"

text \<open>
  What the program does to the outside, in order: a message handed to
  \<^verbatim>\<open>pub->publish\<close>, a matrix handed to \<^verbatim>\<open>cv::imshow\<close>, \<^verbatim>\<open>cv::waitKey\<close>, a call of
  \<^verbatim>\<open>rclcpp::spin_some\<close> with the \<^verbatim>\<open>flip_image\<close> messages it delivered, and
  \<^verbatim>\<open>loop_rate.sleep()\<close>.
\<close>

datatype event = Publish Image | Imshow Mat | WaitKey int | SpinSome "bool list" | Sleep

text \<open>The variables of \<^verbatim>\<open>main\<close> that live across iterations, and the effects so far.\<close>

record loop_state =
  is_flipped :: bool
  frame :: Mat
  flipped_frame :: Mat
  i :: size_t
  events :: "event list"

text \<open>
  What the environment supplies in one iteration: the matrix the frame source stores into
  \<^verbatim>\<open>frame\<close> (\<^verbatim>\<open>cap >> frame\<close>, or \<^verbatim>\<open>render_burger\<close>; empty when no frame was grabbed) and
  the \<^verbatim>\<open>std_msgs::msg::Bool\<close> values the executor hands to the callback, in order, during
  this iteration's \<^verbatim>\<open>spin_some\<close>.
\<close>

record tick =
  grabbed :: Mat
  pending :: "bool list"

text \<open>
  The subscription callback, lines 140 to 145: it stores the message's value. Its log
  line is not modelled. \<^verbatim>\<open>spin_some\<close> runs it once for each message delivered.
\<close>

definition callback :: "loop_state \<Rightarrow> bool \<Rightarrow> loop_state" where
  "callback st msg = st\<lparr>is_flipped := msg\<rparr>"

definition spin_some :: "loop_state \<Rightarrow> bool list \<Rightarrow> loop_state" where
  "spin_some st msgs = (foldl callback st msgs)\<lparr>events := events st @ [SpinSome msgs]\<rparr>"

text \<open>
  Lines 190 to 196: the message is built from \<^verbatim>\<open>frame\<close>, or \<^verbatim>\<open>frame\<close> is mirrored into
  \<^verbatim>\<open>flipped_frame\<close> and the message is built from that. An exception leaves with the
  state reached so far.
\<close>

definition build_message ::
    "loop_state \<Rightarrow> Image \<Rightarrow> (error \<times> loop_state) + (loop_state \<times> Image)" where
  "build_message st msg =
     (if \<not> is_flipped st then
        (case convert_frame_to_message (frame st) (i st) msg of
           Inl e \<Rightarrow> Inl (e, st)
         | Inr msg' \<Rightarrow> Inr (st, msg'))
      else
        (let st = st\<lparr>flipped_frame := cv_flip (frame st)\<rparr>
         in case convert_frame_to_message (flipped_frame st) (i st) msg of
              Inl e \<Rightarrow> Inl (e, st)
            | Inr msg' \<Rightarrow> Inr (st, msg')))"

text \<open>
  Lines 197 to 207: the preview shows \<^verbatim>\<open>cvframe\<close>, a header that shares the payload of
  \<^verbatim>\<open>frame\<close>; then the message is published and \<^verbatim>\<open>i\<close> incremented.
\<close>

definition show_and_publish :: "bool \<Rightarrow> loop_state \<Rightarrow> Image \<Rightarrow> loop_state" where
  "show_and_publish show_camera st msg =
     (let st = (if show_camera
                then (let cvframe = frame st
                      in st\<lparr>events := events st @ [Imshow cvframe, WaitKey 1]\<rparr>)
                else st);
          st = st\<lparr>events := events st @ [Publish msg]\<rparr>
      in st\<lparr>i := i st + 1\<rparr>)"

text \<open>
  One iteration of the \<^verbatim>\<open>while\<close> loop, lines 178 to 211. No exception is caught in
  \<^verbatim>\<open>main\<close>: one thrown in the iteration leaves the loop and the program.
\<close>

definition loop_body :: "bool \<Rightarrow> loop_state \<Rightarrow> tick \<Rightarrow> (error \<times> loop_state) + loop_state" where
  "loop_body show_camera st t =
     (let msg = Image_init\<lparr>is_bigendian := False\<rparr>;
          st = st\<lparr>frame := grabbed t\<rparr>
      in case (if \<not> Mat_empty (frame st) then
                 (case build_message st msg of
                    Inl x \<Rightarrow> Inl x
                  | Inr (st, msg) \<Rightarrow> Inr (show_and_publish show_camera st msg))
               else Inr st) of
           Inl x \<Rightarrow> Inl x
         | Inr st \<Rightarrow>
             (let st = spin_some st (pending t)
              in Inr (st\<lparr>events := events st @ [Sleep]\<rparr>)))"

text \<open>
  The loop runs one iteration for each tick at which \<^verbatim>\<open>rclcpp::ok()\<close> holds; the list
  is those ticks, and \<^verbatim>\<open>rclcpp::ok()\<close> fails after the last. A run that is still going is
  read through the list of the ticks it has completed so far.
\<close>

fun main_loop :: "bool \<Rightarrow> loop_state \<Rightarrow> tick list \<Rightarrow> (error \<times> loop_state) + loop_state" where
  "main_loop show_camera st [] = Inr st"
| "main_loop show_camera st (t # ts) =
     (case loop_body show_camera st t of
        Inl x \<Rightarrow> Inl x
      | Inr st' \<Rightarrow> main_loop show_camera st' ts)"

text \<open>The state at line 174, before the loop.\<close>

definition initial_state :: loop_state where
  "initial_state = \<lparr>is_flipped = False, frame = Mat_init, flipped_frame = Mat_init,
                    i = 1, events = []\<rparr>"

text \<open>
  \<^verbatim>\<open>main\<close> from the point where the device is opened: it returns 1 when the device did
  not open, dies of the uncaught exception, or returns 0 when \<^verbatim>\<open>rclcpp::ok()\<close> fails.
  \<^verbatim>\<open>show_camera\<close> is the constant \<^verbatim>\<open>false\<close> there.
\<close>

datatype exit = Returned int loop_state | Uncaught error loop_state

definition main :: "bool \<Rightarrow> tick list \<Rightarrow> exit" where
  "main isOpened ticks =
     (if \<not> isOpened then Returned 1 initial_state
      else case main_loop False initial_state ticks of
             Inl (e, st) \<Rightarrow> Uncaught e st
           | Inr st \<Rightarrow> Returned 0 st)"

text \<open>Reading a run: the state it ended in, the messages published, the matrices shown.\<close>

definition final_state :: "(error \<times> loop_state) + loop_state \<Rightarrow> loop_state" where
  "final_state r = (case r of Inl (e, st) \<Rightarrow> st | Inr st \<Rightarrow> st)"

fun published_of :: "event list \<Rightarrow> Image list" where
  "published_of [] = []"
| "published_of (Publish m # es) = m # published_of es"
| "published_of (e # es) = published_of es"

fun shown_of :: "event list \<Rightarrow> Mat list" where
  "shown_of [] = []"
| "shown_of (Imshow m # es) = m # shown_of es"
| "shown_of (e # es) = shown_of es"

definition published :: "loop_state \<Rightarrow> Image list" where
  "published st = published_of (events st)"

definition shown :: "loop_state \<Rightarrow> Mat list" where
  "shown st = shown_of (events st)"

text \<open>
  A trace in which every preview shows what is published: each matrix handed to
  \<^verbatim>\<open>imshow\<close> is followed, after \<^verbatim>\<open>waitKey\<close>, by the message of the same iteration, and
  has that message's bytes, height and width.
\<close>

fun preview_matches :: "event list \<Rightarrow> bool" where
  "preview_matches [] = True"
| "preview_matches (Imshow m # WaitKey k # Publish msg # es) =
     (msg_data msg = data m \<and> uint (height msg) = rows m \<and> uint (width msg) = cols m \<and>
      preview_matches es)"
| "preview_matches (Imshow m # es) = False"
| "preview_matches (e # es) = preview_matches es"

text \<open>The state a run of the loop from line 174 ends in, normally or by an exception.\<close>

definition run :: "bool \<Rightarrow> tick list \<Rightarrow> loop_state" where
  "run show_camera ticks = final_state (main_loop show_camera initial_state ticks)"

section \<open>Properties\<close>

lemma type_codes:
  "CV_8UC1 = 0" "CV_8UC3 = 16" "CV_16SC1 = 3" "CV_8UC4 = 24"
  by (simp_all add: CV_8UC1_def CV_8UC3_def CV_16SC1_def CV_8UC4_def CV_MAKETYPE_def)

lemma elem_sizes:
  "CV_ELEM_SIZE CV_8UC1 = 1" "CV_ELEM_SIZE CV_8UC3 = 3"
  "CV_ELEM_SIZE CV_16SC1 = 2" "CV_ELEM_SIZE CV_8UC4 = 4"
  by (simp_all add: type_codes CV_ELEM_SIZE_def CV_MAT_CN_def CV_MAT_DEPTH_def)

subsection \<open>Decimal strings\<close>

lemma digit_char_value:
  assumes "k < 10"
  shows "of_char (digit_char k) - 48 = k"
proof -
  from assms have "k = 0 \<or> k = 1 \<or> k = 2 \<or> k = 3 \<or> k = 4 \<or> k = 5 \<or> k = 6 \<or> k = 7 \<or> k = 8 \<or> k = 9"
    by arith
  then show ?thesis
    by (elim disjE) (simp_all add: digit_char_def)
qed

lemma decimal_value_to_string: "decimal_value (to_string n) = n"
proof (induction n rule: to_string.induct)
  case (1 n)
  show ?case
  proof (cases "n < 10")
    case True
    then show ?thesis
      by (subst to_string.simps) (simp add: decimal_value_def digit_char_value)
  next
    case False
    then have "decimal_value (to_string (n div 10)) = n div 10"
      using 1 by simp
    then show ?thesis using False
      by (subst to_string.simps) (simp add: decimal_value_def digit_char_value)
  qed
qed

lemma to_string_inj: "to_string a = to_string b \<Longrightarrow> a = b"
  by (metis decimal_value_to_string)

subsection \<open>The message builder on a valid matrix\<close>



lemma convert_frame_to_message_unsupported:
  assumes "mat_type2encoding (type src) = Inl e"
  shows "convert_frame_to_message src fid msg = Inl e"
  using assms by (simp add: convert_frame_to_message_def)

subsection \<open>Rows and pixels of the mirror transform\<close>

lemma chunk_of_concat:
  "(\<forall>x\<in>set xss. length x = n) \<Longrightarrow> r < length xss \<Longrightarrow>
   take n (drop (r * n) (concat xss)) = xss ! r"
proof (induction xss arbitrary: r)
  case Nil
  then show ?case by simp
next
  case (Cons x xss)
  show ?case
  proof (cases r)
    case 0
    then show ?thesis using Cons.prems by simp
  next
    case (Suc k)
    then have "take n (drop (k * n) (concat xss)) = xss ! k"
      using Cons by simp
    then show ?thesis using Suc Cons.prems by simp
  qed
qed

lemma concat_chunks:
  "concat (map (\<lambda>r. take n (drop (r * n) xs)) [0..<k]) = take (k * n) xs"
proof (induction k)
  case 0
  then show ?case by simp
next
  case (Suc k)
  have "take (k * n + n) xs = take (k * n) xs @ take n (drop (k * n) xs)"
    by (rule take_add)
  then show ?case using Suc by (simp add: add.commute)
qed

lemma length_row_pixels [simp]: "length (row_pixels n es row) = n"
  by (simp add: row_pixels_def)

lemma row_pixels_uniform:
  assumes "n * es \<le> length row"
  shows "\<forall>p\<in>set (row_pixels n es row). length p = es"
proof
  fix p assume "p \<in> set (row_pixels n es row)"
  then obtain c where c: "c < n" and p: "p = take es (drop (c * es) row)"
    by (auto simp: row_pixels_def)
  have "Suc c * es \<le> n * es" using c by (intro mult_le_mono1) simp
  then have "c * es + es \<le> length row" using assms by simp
  then show "length p = es" using p by simp
qed

lemma concat_row_pixels: "concat (row_pixels n es row) = take (n * es) row"
  by (simp add: row_pixels_def concat_chunks)

lemma length_flip_row:
  assumes "n * es \<le> length row"
  shows "length (flip_row n es row) = length row"
proof -
  have "length (concat (rev (row_pixels n es row))) = n * es"
    using assms by (simp add: concat_row_pixels)
  then show ?thesis using assms by (simp add: flip_row_def del: length_concat_rev)
qed

lemma row_pixels_flip_row:
  assumes "n * es \<le> length row"
  shows "row_pixels n es (flip_row n es row) = rev (row_pixels n es row)"
proof (rule nth_equalityI)
  show "length (row_pixels n es (flip_row n es row)) = length (rev (row_pixels n es row))"
    by simp
next
  fix c assume "c < length (row_pixels n es (flip_row n es row))"
  then have c: "c < n" by simp
  let ?ps = "rev (row_pixels n es row)"
  have u: "\<forall>p\<in>set ?ps. length p = es"
    using row_pixels_uniform [OF assms] by simp
  have len: "length (concat ?ps) = n * es"
    using assms by (simp add: concat_row_pixels)
  have "Suc c * es \<le> n * es" using c by (intro mult_le_mono1) simp
  then have fit: "c * es + es \<le> length (concat ?ps)" using len by simp
  have "row_pixels n es (flip_row n es row) ! c
        = take es (drop (c * es) (concat ?ps @ drop (n * es) row))"
    using c by (simp add: row_pixels_def flip_row_def)
  also have "\<dots> = take es (drop (c * es) (concat ?ps))"
    using fit by (simp del: length_concat_rev)
  also have "\<dots> = ?ps ! c"
    using chunk_of_concat [of ?ps es c] u c by simp
  finally show "row_pixels n es (flip_row n es row) ! c = ?ps ! c" .
qed

lemma padding_flip_row:
  assumes "n * es \<le> length row"
  shows "drop (n * es) (flip_row n es row) = drop (n * es) row"
proof -
  have "length (concat (rev (row_pixels n es row))) = n * es"
    using assms by (simp add: concat_row_pixels)
  then show ?thesis by (simp add: flip_row_def del: length_concat_rev)
qed

lemma flip_row_flip_row:
  assumes "n * es \<le> length row"
  shows "flip_row n es (flip_row n es row) = row"
proof -
  have "flip_row n es (flip_row n es row)
        = concat (rev (row_pixels n es (flip_row n es row))) @ drop (n * es) (flip_row n es row)"
    by (simp add: flip_row_def)
  also have "\<dots> = concat (row_pixels n es row) @ drop (n * es) row"
    using assms by (simp add: row_pixels_flip_row padding_flip_row)
  also have "\<dots> = row"
    by (simp add: concat_row_pixels)
  finally show ?thesis .
qed


lemma length_mat_row:
  assumes "length (data m) = step m * nat (rows m)" "r < nat (rows m)"
  shows "length (mat_row m r) = step m"
proof -
  have "Suc r * step m \<le> nat (rows m) * step m" using assms(2) by (intro mult_le_mono1) simp
  then have "r * step m + step m \<le> length (data m)" using assms(1) by (simp add: mult.commute)
  then show ?thesis by (simp add: mat_row_def)
qed

lemma cv_flip_meta [simp]:
  "rows (cv_flip m) = rows m" "cols (cv_flip m) = cols m"
  "type (cv_flip m) = type m" "step (cv_flip m) = step m"
  by (simp_all add: cv_flip_def)

lemma PixelBuffer_invariantD:
  assumes "PixelBuffer_invariant m"
  shows "nat (cols m) * CV_ELEM_SIZE (type m) \<le> step m"
    and "length (data m) = step m * nat (rows m)"
  using assms by (simp_all add: PixelBuffer_invariant_def)

lemma flipped_rows_uniform:
  assumes "PixelBuffer_invariant m"
  shows "\<forall>x\<in>set (map (\<lambda>r. flip_row (nat (cols m)) (CV_ELEM_SIZE (type m)) (mat_row m r))
                     [0..<nat (rows m)]). length x = step m"
  using PixelBuffer_invariantD [OF assms]
  by (auto simp: length_flip_row length_mat_row)

lemma mat_row_cv_flip:
  assumes "PixelBuffer_invariant m" "r < nat (rows m)"
  shows "mat_row (cv_flip m) r = flip_row (nat (cols m)) (CV_ELEM_SIZE (type m)) (mat_row m r)"
proof -
  let ?rs = "map (\<lambda>r. flip_row (nat (cols m)) (CV_ELEM_SIZE (type m)) (mat_row m r))
               [0..<nat (rows m)]"
  have "mat_row (cv_flip m) r = take (step m) (drop (r * step m) (concat ?rs))"
    by (simp add: mat_row_def cv_flip_def)
  also have "\<dots> = ?rs ! r"
    using chunk_of_concat [OF flipped_rows_uniform [OF assms(1)], of r] assms(2) by simp
  also have "\<dots> = flip_row (nat (cols m)) (CV_ELEM_SIZE (type m)) (mat_row m r)"
    using assms(2) by simp
  finally show ?thesis .
qed

lemma length_concat_uniform:
  "(\<forall>x\<in>set xss. length x = n) \<Longrightarrow> length (concat xss) = length xss * n"
  by (induction xss) auto

lemma length_data_cv_flip:
  assumes "PixelBuffer_invariant m"
  shows "length (data (cv_flip m)) = length (data m)"
proof -
  have "length (data (cv_flip m)) = nat (rows m) * step m"
    using length_concat_uniform [OF flipped_rows_uniform [OF assms]]
    by (simp add: cv_flip_def)
  then show ?thesis using PixelBuffer_invariantD(2) [OF assms] by (simp add: mult.commute)
qed

lemma PixelBuffer_invariant_cv_flip:
  assumes "PixelBuffer_invariant m"
  shows "PixelBuffer_invariant (cv_flip m)"
  using assms length_data_cv_flip [OF assms] by (simp add: PixelBuffer_invariant_def)

lemma concat_mat_rows:
  assumes "length (data m) = step m * R"
  shows "concat (map (mat_row m) [0..<R]) = data m"
proof -
  have "concat (map (\<lambda>r. take (step m) (drop (r * step m) (data m))) [0..<R])
        = take (R * step m) (data m)"
    by (rule concat_chunks)
  then show ?thesis using assms by (simp add: mat_row_def [abs_def] mult.commute)
qed

lemma cv_flip_cv_flip:
  assumes "PixelBuffer_invariant m"
  shows "cv_flip (cv_flip m) = m"
proof -
  let ?n = "nat (cols m)" and ?es = "CV_ELEM_SIZE (type m)"
  have rowlen: "\<And>r. r < nat (rows m) \<Longrightarrow> ?n * ?es \<le> length (mat_row m r)"
    using PixelBuffer_invariantD [OF assms] by (simp add: length_mat_row)
  have "data (cv_flip (cv_flip m))
        = concat (map (\<lambda>r. flip_row ?n ?es (mat_row (cv_flip m) r)) [0..<nat (rows m)])"
    by (simp add: cv_flip_def)
  also have "\<dots> = concat (map (\<lambda>r. flip_row ?n ?es (flip_row ?n ?es (mat_row m r)))
                             [0..<nat (rows m)])"
    by (intro arg_cong [where f = concat] map_cong refl)
       (simp add: mat_row_cv_flip [OF assms])
  also have "\<dots> = concat (map (mat_row m) [0..<nat (rows m)])"
    by (intro arg_cong [where f = concat] map_cong refl)
       (simp add: flip_row_flip_row rowlen)
  also have "\<dots> = data m"
    using PixelBuffer_invariantD(2) [OF assms] by (rule concat_mat_rows)
  finally have "data (cv_flip (cv_flip m)) = data m" .
  then show ?thesis by (simp add: cv_flip_def)
qed

lemma pixel_at_row:
  assumes "c * CV_ELEM_SIZE (type m) + CV_ELEM_SIZE (type m) \<le> step m"
  shows "pixel_at m r c = take (CV_ELEM_SIZE (type m)) (drop (c * CV_ELEM_SIZE (type m)) (mat_row m r))"
  using assms by (simp add: pixel_at_def mat_row_def drop_take add.commute min_def)

lemma pixel_at_cv_flip:
  assumes "PixelBuffer_invariant m" "r < nat (rows m)" "c < nat (cols m)"
  shows "pixel_at (cv_flip m) r c = pixel_at m r (nat (cols m) - 1 - c)"
proof -
  let ?n = "nat (cols m)" and ?es = "CV_ELEM_SIZE (type m)"
  have le: "?n * ?es \<le> step m" and len: "length (mat_row m r) = step m"
    using PixelBuffer_invariantD [OF assms(1)] assms(2) by (simp_all add: length_mat_row)
  have fit: "\<And>k. k < ?n \<Longrightarrow> k * ?es + ?es \<le> step m"
  proof -
    fix k assume "k < ?n"
    then have "Suc k * ?es \<le> ?n * ?es" by (intro mult_le_mono1) simp
    then show "k * ?es + ?es \<le> step m" using le by simp
  qed
  have c': "?n - 1 - c < ?n" using assms(3) by simp
  have "pixel_at (cv_flip m) r c = take ?es (drop (c * ?es) (mat_row (cv_flip m) r))"
    using fit [OF assms(3)] by (simp add: pixel_at_row)
  also have "\<dots> = row_pixels ?n ?es (flip_row ?n ?es (mat_row m r)) ! c"
    using assms by (simp add: mat_row_cv_flip row_pixels_def)
  also have "\<dots> = rev (row_pixels ?n ?es (mat_row m r)) ! c"
    using le len by (simp add: row_pixels_flip_row)
  also have "\<dots> = row_pixels ?n ?es (mat_row m r) ! (?n - 1 - c)"
    using assms(3) by (simp add: rev_nth)
  also have "\<dots> = take ?es (drop ((?n - 1 - c) * ?es) (mat_row m r))"
    using c' by (simp add: row_pixels_def del: diff_diff_left)
  also have "\<dots> = pixel_at m r (?n - 1 - c)"
    using fit [OF c'] by (simp add: pixel_at_row)
  finally show ?thesis .
qed

subsection \<open>One iteration, case by case\<close>

lemma foldl_callback:
  "foldl callback st msgs = st\<lparr>is_flipped := (if msgs = [] then is_flipped st else last msgs)\<rparr>"
  by (induction msgs arbitrary: st) (simp_all add: callback_def)

lemma spin_some_eq:
  "spin_some st msgs =
     st\<lparr>is_flipped := (if msgs = [] then is_flipped st else last msgs),
        events := events st @ [SpinSome msgs]\<rparr>"
  by (simp add: spin_some_def foldl_callback)


lemma loop_body_empty:
  assumes "Mat_empty (grabbed t)"
  shows "loop_body sc st t =
     Inr (st\<lparr>is_flipped := (if pending t = [] then is_flipped st else last (pending t)),
             frame := grabbed t,
             events := events st @ [SpinSome (pending t), Sleep]\<rparr>)"
  using assms by (simp add: loop_body_def spin_some_eq)

lemma loop_body_throw:
  assumes "\<not> Mat_empty (grabbed t)"
    and "convert_frame_to_message (if is_flipped st then cv_flip (grabbed t) else grabbed t)
           (i st) (Image_init\<lparr>is_bigendian := False\<rparr>) = Inl e"
  shows "loop_body sc st t =
     Inl (e, st\<lparr>frame := grabbed t,
                 flipped_frame := (if is_flipped st then cv_flip (grabbed t)
                                   else flipped_frame st)\<rparr>)"
  using assms by (cases "is_flipped st") (simp_all add: loop_body_def build_message_def Let_def)

lemma loop_body_publish:
  assumes "\<not> Mat_empty (grabbed t)"
    and "convert_frame_to_message (if is_flipped st then cv_flip (grabbed t) else grabbed t)
           (i st) (Image_init\<lparr>is_bigendian := False\<rparr>) = Inr m"
  shows "loop_body sc st t =
     Inr (st\<lparr>is_flipped := (if pending t = [] then is_flipped st else last (pending t)),
             frame := grabbed t,
             flipped_frame := (if is_flipped st then cv_flip (grabbed t) else flipped_frame st),
             i := i st + 1,
             events := events st @ (if sc then [Imshow (grabbed t), WaitKey 1] else [])
                         @ [Publish m, SpinSome (pending t), Sleep]\<rparr>)"
  using assms
  by (cases "is_flipped st")
     (simp_all add: loop_body_def build_message_def show_and_publish_def spin_some_eq Let_def)

lemma published_of_append: "published_of (xs @ ys) = published_of xs @ published_of ys"
  by (induction xs rule: published_of.induct) simp_all

lemma shown_of_append: "shown_of (xs @ ys) = shown_of xs @ shown_of ys"
  by (induction xs rule: shown_of.induct) simp_all


lemma final_state_simps [simp]:
  "final_state (Inl (e, st)) = st" "final_state (Inr st) = st"
  by (simp_all add: final_state_def)

lemma convert_frame_id:
  assumes "convert_frame_to_message src fid msg = Inr m"
  shows "header_frame_id m = to_string (unat fid)"
  using assms
  by (auto simp: convert_frame_to_message_def Let_def split: sum.splits if_splits)

lemma loop_body_cases:
  obtains
    (Empty) "Mat_empty (grabbed t)"
      "loop_body sc st t =
         Inr (st\<lparr>is_flipped := (if pending t = [] then is_flipped st else last (pending t)),
                 frame := grabbed t,
                 events := events st @ [SpinSome (pending t), Sleep]\<rparr>)"
  | (Throw) e where "\<not> Mat_empty (grabbed t)"
      "convert_frame_to_message (if is_flipped st then cv_flip (grabbed t) else grabbed t)
           (i st) (Image_init\<lparr>is_bigendian := False\<rparr>) = Inl e"
      "loop_body sc st t =
         Inl (e, st\<lparr>frame := grabbed t,
                     flipped_frame := (if is_flipped st then cv_flip (grabbed t)
                                       else flipped_frame st)\<rparr>)"
  | (Published) m where "\<not> Mat_empty (grabbed t)"
      "convert_frame_to_message (if is_flipped st then cv_flip (grabbed t) else grabbed t)
           (i st) (Image_init\<lparr>is_bigendian := False\<rparr>) = Inr m"
      "loop_body sc st t =
         Inr (st\<lparr>is_flipped := (if pending t = [] then is_flipped st else last (pending t)),
                 frame := grabbed t,
                 flipped_frame := (if is_flipped st then cv_flip (grabbed t)
                                   else flipped_frame st),
                 i := i st + 1,
                 events := events st @ (if sc then [Imshow (grabbed t), WaitKey 1] else [])
                             @ [Publish m, SpinSome (pending t), Sleep]\<rparr>)"
proof (cases "Mat_empty (grabbed t)")
  case True
  then show ?thesis using Empty loop_body_empty by blast
next
  case False
  show ?thesis
  proof (cases "convert_frame_to_message
                  (if is_flipped st then cv_flip (grabbed t) else grabbed t)
                  (i st) (Image_init\<lparr>is_bigendian := False\<rparr>)")
    case (Inl e)
    then show ?thesis using False Throw loop_body_throw by blast
  next
    case (Inr m)
    then show ?thesis using False Published loop_body_publish by blast
  qed
qed

lemma loop_body_counter:
  "published (final_state (loop_body sc st t)) = published st \<and>
     i (final_state (loop_body sc st t)) = i st
   \<or> (\<exists>m. published (final_state (loop_body sc st t)) = published st @ [m] \<and>
          header_frame_id m = to_string (unat (i st)) \<and>
          i (final_state (loop_body sc st t)) = i st + 1)"
proof (cases rule: loop_body_cases [where t = t and sc = sc and st = st])
  case Empty
  then show ?thesis by (simp add: published_def published_of_append)
next
  case (Throw e)
  then show ?thesis by (simp add: published_def published_of_append)
next
  case (Published m)
  then show ?thesis by (simp add: convert_frame_id published_def published_of_append)
qed

lemma main_loop_published:
  "\<exists>new. published (final_state (main_loop sc st ts)) = published st @ new \<and>
         map header_frame_id new
           = map (\<lambda>k. to_string (unat (i st + word_of_nat k))) [0..<length new] \<and>
         i (final_state (main_loop sc st ts)) = i st + word_of_nat (length new)"
proof (induction ts arbitrary: st)
  case Nil
  show ?case by simp
next
  case (Cons t ts)
  show ?case
  proof (cases rule: loop_body_cases [where t = t and sc = sc and st = st])
    case Empty
    let ?st1 = "st\<lparr>is_flipped := (if pending t = [] then is_flipped st else last (pending t)),
                    frame := grabbed t,
                    events := events st @ [SpinSome (pending t), Sleep]\<rparr>"
    from Cons.IH [of ?st1] Empty show ?thesis by (simp add: published_def published_of_append)
  next
    case (Throw e)
    then show ?thesis by (simp add: published_def published_of_append)
  next
    case (Published m)
    let ?st1 = "st\<lparr>is_flipped := (if pending t = [] then is_flipped st else last (pending t)),
                 frame := grabbed t,
                 flipped_frame := (if is_flipped st then cv_flip (grabbed t)
                                   else flipped_frame st),
                 i := i st + 1,
                 events := events st @ (if sc then [Imshow (grabbed t), WaitKey 1] else [])
                             @ [Publish m, SpinSome (pending t), Sleep]\<rparr>"
    from Cons.IH [of ?st1] obtain new where
      p: "published (final_state (main_loop sc ?st1 ts)) = published ?st1 @ new"
      and ids: "map header_frame_id new
           = map (\<lambda>k. to_string (unat (i ?st1 + word_of_nat k))) [0..<length new]"
      and cnt: "i (final_state (main_loop sc ?st1 ts)) = i ?st1 + word_of_nat (length new)"
      by blast
    have run: "main_loop sc st (t # ts) = main_loop sc ?st1 ts"
      using Published(3) by simp
    have pub1: "published ?st1 = published st @ [m]"
      by (simp add: published_def published_of_append)
    have fid: "header_frame_id m = to_string (unat (i st))"
      using Published(2) by (rule convert_frame_id)
    have shift: "map (\<lambda>k. to_string (unat (i st + word_of_nat k))) [0..<length (m # new)]
        = to_string (unat (i st)) # map (\<lambda>k. to_string (unat (i st + 1 + word_of_nat k))) [0..<length new]"
      by (simp add: upt_conv_Cons map_Suc_upt [symmetric] add.assoc del: upt_Suc)
    show ?thesis
      apply (rule exI [of _ "m # new"])
      using p ids cnt fid
      by (simp only: run pub1 shift) (simp add: add.assoc)
  qed
qed

lemma unsupported_type:
  assumes "t \<notin> {CV_8UC1, CV_8UC3, CV_16SC1, CV_8UC4}"
  shows "mat_type2encoding t = Inl UnsupportedEncoding"
  using assms by (simp add: mat_type2encoding_def UnsupportedEncoding_def)

lemma bad_frame_facts:
  "\<not> Mat_empty \<lparr>rows = 1, cols = 1, type = CV_MAKETYPE CV_16U 1, step = 2, data = [0, 0]\<rparr>"
  "CV_MAKETYPE CV_16U 1 \<notin> {CV_8UC1, CV_8UC3, CV_16SC1, CV_8UC4}"
  by (simp_all add: Mat_empty_def type_codes CV_MAKETYPE_def)

text \<open>The equations that evaluate the model on a concrete run.\<close>

lemma main_runs_loop:
  "main True ticks = Returned 0 st \<or> main True ticks = Uncaught e st \<Longrightarrow> st = run False ticks"
  by (auto simp: main_def run_def split: sum.splits)

lemma main_not_opened: "main False ticks = Returned 1 initial_state"
  by (simp add: main_def)

lemmas eval_defs = loop_body_def build_message_def show_and_publish_def spin_some_def
      callback_def convert_frame_to_message_def mat_type2encoding_def Mat_empty_def
      initial_state_def Mat_init_def Image_init_def final_state_def type_codes
      published_def shown_def run_def cv_flip_def flip_row_def row_pixels_def mat_row_def
      CV_ELEM_SIZE_def CV_MAT_CN_def CV_MAT_DEPTH_def CV_MAKETYPE_def UnsupportedEncoding_def
      Let_def upt_rec to_string.simps digit_char_def

subsection \<open>The preview\<close>




text \<open>
  The preview branch, lines 197 to 203, read with \<^verbatim>\<open>show_camera\<close> true: it shows the
  frame as grabbed, which is not what is published when the flip state is true.
\<close>

lemma preview_shows_grabbed_frame:
  assumes "\<not> Mat_empty (grabbed t)" and "loop_body True st t = Inr st'"
  shows "shown st' = shown st @ [grabbed t] \<and>
         (\<exists>m. published st' = published st @ [m] \<and>
              convert_frame_to_message (if is_flipped st then cv_flip (grabbed t) else grabbed t)
                (i st) (Image_init\<lparr>is_bigendian := False\<rparr>) = Inr m)"
  using assms
  by (cases rule: loop_body_cases [where t = t and sc = True and st = st])
     (auto simp: published_def published_of_append shown_def shown_of_append)

lemma preview_branch_differs:
  "\<not> preview_matches (events (run True
     [\<lparr>grabbed = Mat_init, pending = [True]\<rparr>,
      \<lparr>grabbed = \<lparr>rows = 1, cols = 2, type = CV_8UC1, step = 2, data = [1, 2]\<rparr>, pending = []\<rparr>]))"
  by (simp add: eval_defs)

subsection \<open>A matrix with a step beyond 32 bits\<close>


subsection \<open>The claims\<close>

text \<open>
  C1, as the program has it. A non-empty frame whose type code is none of the four
  supported ones makes the resolver throw, and nothing in \<^verbatim>\<open>main\<close> catches the exception:
  the iteration publishes nothing, does not reach \<^verbatim>\<open>spin_some\<close> or the sleep, leaves the
  counter and the flip state as they were, and the loop ends with the exception whatever
  ticks would have followed.
\<close>

theorem C1_unsupported_frame_ends_loop:
  assumes "\<not> Mat_empty (grabbed t)"
    and "type (grabbed t) \<notin> {CV_8UC1, CV_8UC3, CV_16SC1, CV_8UC4}"
  shows "(\<exists>st'. loop_body sc st t = Inl (UnsupportedEncoding, st') \<and>
               events st' = events st \<and> i st' = i st \<and> is_flipped st' = is_flipped st) \<and>
         main_loop sc st (t # ts) = loop_body sc st t"
proof -
  have "convert_frame_to_message (if is_flipped st then cv_flip (grabbed t) else grabbed t)
          (i st) (Image_init\<lparr>is_bigendian := False\<rparr>) = Inl UnsupportedEncoding"
    using unsupported_type [OF assms(2)]
    by (simp add: convert_frame_to_message_unsupported)
  from loop_body_throw [OF assms(1) this, of sc]
  show ?thesis by simp
qed


theorem C1_unsupported_frame_ends_loop_witness:
  "main_loop False initial_state
     [\<lparr>grabbed = \<lparr>rows = 1, cols = 1, type = CV_MAKETYPE CV_16U 1, step = 2, data = [0, 0]\<rparr>,
       pending = [True]\<rparr>,
      \<lparr>grabbed = \<lparr>rows = 1, cols = 2, type = CV_8UC1, step = 2, data = [1, 2]\<rparr>,
       pending = []\<rparr>]
   = loop_body False initial_state
       \<lparr>grabbed = \<lparr>rows = 1, cols = 1, type = CV_MAKETYPE CV_16U 1, step = 2, data = [0, 0]\<rparr>,
        pending = [True]\<rparr>"
  using C1_unsupported_frame_ends_loop
    [of "\<lparr>grabbed = \<lparr>rows = 1, cols = 1, type = CV_MAKETYPE CV_16U 1, step = 2, data = [0, 0]\<rparr>,
          pending = [True]\<rparr>" False initial_state
        "[\<lparr>grabbed = \<lparr>rows = 1, cols = 2, type = CV_8UC1, step = 2, data = [1, 2]\<rparr>,
           pending = []\<rparr>]"]
    bad_frame_facts
  by simp


text \<open>
  C1 as stated fails: after a frame of type \<^verbatim>\<open>CV_16UC1\<close> the loop does not go on to the
  next tick, whose frame is a supported one; the program ends with the exception.
\<close>

theorem C1_counterexample:
  "main_loop False initial_state
     [\<lparr>grabbed = \<lparr>rows = 1, cols = 1, type = CV_MAKETYPE CV_16U 1, step = 2, data = [0, 0]\<rparr>,
       pending = []\<rparr>,
      \<lparr>grabbed = \<lparr>rows = 1, cols = 2, type = CV_8UC1, step = 2, data = [1, 2]\<rparr>,
       pending = []\<rparr>]
   = Inl (UnsupportedEncoding,
          initial_state\<lparr>frame := \<lparr>rows = 1, cols = 1, type = CV_MAKETYPE CV_16U 1,
                                    step = 2, data = [0, 0]\<rparr>\<rparr>)"
  by (simp add: loop_body_def build_message_def convert_frame_to_message_def
      mat_type2encoding_def Mat_empty_def initial_state_def type_codes CV_MAKETYPE_def
      UnsupportedEncoding_def)

text \<open>
  C2. The counter is 1 before the loop. After any run it is 1 plus the number of messages
  published, and the n-th message published carries the decimal form of n as a
  \<^verbatim>\<open>size_t\<close>, which is the decimal form of n itself as long as fewer than \<open>2 ^ 64\<close>
  messages were published. An iteration on an empty frame completes, publishes nothing
  and leaves the counter unchanged; any iteration either publishes nothing and leaves the
  counter unchanged, or publishes one message carrying the counter and adds one to it.
\<close>

theorem C2_sequence_counter:
  "i initial_state = 1 \<and>
   i (run sc ts) = 1 + word_of_nat (length (published (run sc ts))) \<and>
   map header_frame_id (published (run sc ts))
     = map (\<lambda>n. to_string (unat (word_of_nat n :: size_t))) [1..<Suc (length (published (run sc ts)))] \<and>
   (length (published (run sc ts)) < 2 ^ 64 \<longrightarrow>
      map header_frame_id (published (run sc ts))
        = map to_string [1..<Suc (length (published (run sc ts)))]) \<and>
   (Mat_empty (grabbed t) \<longrightarrow>
      (\<exists>st'. loop_body sc st t = Inr st' \<and> published st' = published st \<and> i st' = i st)) \<and>
   (published (final_state (loop_body sc st t)) = published st \<and>
      i (final_state (loop_body sc st t)) = i st
    \<or> (\<exists>m. published (final_state (loop_body sc st t)) = published st @ [m] \<and>
           header_frame_id m = to_string (unat (i st)) \<and>
           i (final_state (loop_body sc st t)) = i st + 1))"
proof -
  obtain new where
    p: "published (run sc ts) = published initial_state @ new"
    and ids: "map header_frame_id new
           = map (\<lambda>k. to_string (unat (i initial_state + word_of_nat k))) [0..<length new]"
    and cnt: "i (run sc ts) = i initial_state + word_of_nat (length new)"
    unfolding run_def using main_loop_published [of sc initial_state ts] by blast
  have i0: "i initial_state = 1" and p0: "published initial_state = []"
    by (simp_all add: initial_state_def published_def)
  have pn: "published (run sc ts) = new" using p p0 by simp
  have wrap: "map header_frame_id new
      = map (\<lambda>n. to_string (unat (word_of_nat n :: size_t))) [1..<Suc (length new)]"
  proof -
    have "map (\<lambda>n. to_string (unat (word_of_nat n :: size_t))) [1..<Suc (length new)]
        = map (\<lambda>n. to_string (unat (word_of_nat n :: size_t))) (map Suc [0..<length new])"
      by (simp only: map_Suc_upt One_nat_def)
    also have "\<dots> = map (\<lambda>k. to_string (unat (1 + word_of_nat k :: size_t))) [0..<length new]"
      by (simp add: comp_def)
    finally show ?thesis using ids i0 by simp
  qed
  have exact: "map header_frame_id new = map to_string [1..<Suc (length new)]"
    if "length new < 2 ^ 64"
  proof -
    have "\<And>n. n \<in> set [1..<Suc (length new)] \<Longrightarrow>
            to_string (unat (word_of_nat n :: size_t)) = to_string n"
    proof -
      fix n assume "n \<in> set [1..<Suc (length new)]"
      then have "n \<le> length new" by auto
      then have "n < 2 ^ 64" using that by (rule le_less_trans)
      then show "to_string (unat (word_of_nat n :: size_t)) = to_string n"
        by (simp add: unat_of_nat)
    qed
    then show ?thesis unfolding wrap by (intro map_cong refl)
  qed
  have empty: "\<exists>st'. loop_body sc st t = Inr st' \<and> published st' = published st \<and> i st' = i st"
    if "Mat_empty (grabbed t)"
    using loop_body_empty [OF that, of sc st] by (simp add: published_def published_of_append)
  have cnt1: "i (run sc ts) = 1 + word_of_nat (length new)"
    using cnt i0 by simp
  show ?thesis
    unfolding pn
    by (intro conjI impI i0 cnt1 wrap exact empty loop_body_counter)
qed

theorem C2_sequence_counter_witness:
  "map header_frame_id (published (run False
     [\<lparr>grabbed = \<lparr>rows = 1, cols = 2, type = CV_8UC1, step = 2, data = [1, 2]\<rparr>, pending = []\<rparr>,
      \<lparr>grabbed = Mat_init, pending = []\<rparr>,
      \<lparr>grabbed = Mat_init, pending = []\<rparr>,
      \<lparr>grabbed = \<lparr>rows = 1, cols = 2, type = CV_8UC1, step = 2, data = [3, 4]\<rparr>, pending = []\<rparr>]))
   = [''1'', ''2''] \<and>
   Mat_empty (grabbed \<lparr>grabbed = Mat_init, pending = []\<rparr>) \<and>
   (\<exists>st'. loop_body False initial_state \<lparr>grabbed = Mat_init, pending = []\<rparr> = Inr st' \<and>
          published st' = published initial_state \<and> i st' = i initial_state)"
proof -
  let ?ts = "[\<lparr>grabbed = \<lparr>rows = 1, cols = 2, type = CV_8UC1, step = 2, data = [1, 2]\<rparr>, pending = []\<rparr>,
      \<lparr>grabbed = Mat_init, pending = []\<rparr>,
      \<lparr>grabbed = Mat_init, pending = []\<rparr>,
      \<lparr>grabbed = \<lparr>rows = 1, cols = 2, type = CV_8UC1, step = 2, data = [3, 4]\<rparr>, pending = []\<rparr>]"
  have len: "length (published (run False ?ts)) = 2"
    by (simp add: run_def loop_body_def build_message_def show_and_publish_def spin_some_def
      convert_frame_to_message_def mat_type2encoding_def Mat_empty_def initial_state_def
      Mat_init_def published_def final_state_def)
  have e: "Mat_empty (grabbed \<lparr>grabbed = Mat_init, pending = []\<rparr>)"
    by (simp add: Mat_empty_def Mat_init_def)
  have ids: "map to_string [1..<Suc 2] = [''1'', ''2'']"
    by (simp add: upt_rec to_string.simps digit_char_def)
  note T = C2_sequence_counter [of False ?ts "\<lparr>grabbed = Mat_init, pending = []\<rparr>" initial_state]
  from T have A: "length (published (run False ?ts)) < 2 ^ 64 \<longrightarrow>
      map header_frame_id (published (run False ?ts))
        = map to_string [1..<Suc (length (published (run False ?ts)))]"
    by blast
  from T have B: "Mat_empty (grabbed \<lparr>grabbed = Mat_init, pending = []\<rparr>) \<longrightarrow>
      (\<exists>st'. loop_body False initial_state \<lparr>grabbed = Mat_init, pending = []\<rparr> = Inr st' \<and>
          published st' = published initial_state \<and> i st' = i initial_state)"
    by blast
  have "map header_frame_id (published (run False ?ts)) = [''1'', ''2'']"
    using A ids by (simp only: len) simp
  then show ?thesis using B e by blast
qed




text \<open>
  C4. The resolver maps the one-channel unsigned 8-bit layout to mono8, the three-channel
  unsigned 8-bit layout to bgr8, the one-channel signed 16-bit layout to mono16 and the
  four-channel unsigned 8-bit layout to rgba8; on every other type code it throws the
  runtime error "Unsupported encoding type".
\<close>

theorem C4_encoding_table:
  "mat_type2encoding (CV_MAKETYPE CV_8U 1) = Inr ''mono8'' \<and>
   mat_type2encoding (CV_MAKETYPE CV_8U 3) = Inr ''bgr8'' \<and>
   mat_type2encoding (CV_MAKETYPE CV_16S 1) = Inr ''mono16'' \<and>
   mat_type2encoding (CV_MAKETYPE CV_8U 4) = Inr ''rgba8'' \<and>
   (t \<notin> {CV_MAKETYPE CV_8U 1, CV_MAKETYPE CV_8U 3, CV_MAKETYPE CV_16S 1, CV_MAKETYPE CV_8U 4}
      \<longrightarrow> mat_type2encoding t = Inl UnsupportedEncoding)"
  by (simp add: mat_type2encoding_def UnsupportedEncoding_def CV_8UC1_def CV_8UC3_def
      CV_16SC1_def CV_8UC4_def CV_MAKETYPE_def)

theorem C4_encoding_table_witness:
  "CV_MAKETYPE CV_16U 1
     \<notin> {CV_MAKETYPE CV_8U 1, CV_MAKETYPE CV_8U 3, CV_MAKETYPE CV_16S 1, CV_MAKETYPE CV_8U 4} \<and>
   mat_type2encoding (CV_MAKETYPE CV_16U 1) = Inl UnsupportedEncoding"
  using C4_encoding_table [of "CV_MAKETYPE CV_16U 1"] by (simp add: CV_MAKETYPE_def)

text \<open>
  C5. Whatever toggle messages \<^verbatim>\<open>spin_some\<close> delivers in an iteration, the flip state
  after it is the value of the last one; the message of the next iteration, when its
  frame is not empty, is built from the mirrored frame if that value is true and from the
  frame as grabbed if it is false. So true followed by false leaves the next published
  frame unflipped.
\<close>

theorem C5_last_toggle_wins:
  assumes "loop_body sc st t = Inr st'" and "pending t = ms @ [b]"
    and "\<not> Mat_empty (grabbed t')" and "loop_body sc st' t' = Inr st''"
  shows "is_flipped st' = b \<and>
         (\<exists>m. published st'' = published st' @ [m] \<and>
              convert_frame_to_message (if b then cv_flip (grabbed t') else grabbed t')
                (i st') (Image_init\<lparr>is_bigendian := False\<rparr>) = Inr m)"
proof -
  have fl: "is_flipped st' = b"
    using assms(1,2)
    by (cases rule: loop_body_cases [where t = t and sc = sc and st = st]) auto
  have "\<exists>m. published st'' = published st' @ [m] \<and>
              convert_frame_to_message (if is_flipped st' then cv_flip (grabbed t') else grabbed t')
                (i st') (Image_init\<lparr>is_bigendian := False\<rparr>) = Inr m"
    using assms(3,4)
    by (cases rule: loop_body_cases [where t = t' and sc = sc and st = st'])
       (auto simp: published_def published_of_append)
  then show ?thesis using fl by simp
qed

theorem C5_last_toggle_wins_witness:
  "map msg_data (published (run False
     [\<lparr>grabbed = Mat_init, pending = [True, False]\<rparr>,
      \<lparr>grabbed = \<lparr>rows = 1, cols = 2, type = CV_8UC1, step = 2, data = [1, 2]\<rparr>, pending = []\<rparr>]))
   = [[1, 2]]"
proof -
  let ?t = "\<lparr>grabbed = Mat_init, pending = [True, False]\<rparr>"
  let ?g = "\<lparr>rows = 1, cols = 2, type = CV_8UC1, step = 2, data = [1, 2]\<rparr>"
  let ?t' = "\<lparr>grabbed = ?g, pending = []\<rparr>"
  let ?st1 = "final_state (loop_body False initial_state ?t)"
  let ?st2 = "final_state (loop_body False ?st1 ?t')"
  have a: "loop_body False initial_state ?t = Inr ?st1"
    by (simp add: eval_defs)
  have b: "pending ?t = [True] @ [False]" by simp
  have c: "\<not> Mat_empty (grabbed ?t')" by (simp add: Mat_empty_def)
  have d: "loop_body False ?st1 ?t' = Inr ?st2"
    by (simp add: eval_defs)
  have p1: "published ?st1 = []"
    by (simp add: eval_defs)
  have r: "run False [?t, ?t'] = ?st2"
    by (simp add: eval_defs)
  from C5_last_toggle_wins [OF a b c d] obtain m where
    m: "published ?st2 = published ?st1 @ [m]"
    and cv: "convert_frame_to_message ?g (i ?st1) (Image_init\<lparr>is_bigendian := False\<rparr>) = Inr m"
    by auto
  have "msg_data m = [1, 2]"
    using cv by (auto simp: convert_frame_to_message_def mat_type2encoding_def type_codes)
  then show ?thesis using m p1 by (simp only: r) simp
qed

text \<open>
  C6. Mirroring a pixel buffer twice gives the buffer back: the same metadata and the
  same bytes.
\<close>

theorem C6_flip_twice:
  assumes "PixelBuffer_invariant m"
  shows "cv_flip (cv_flip m) = m"
  using assms by (rule cv_flip_cv_flip)

theorem C6_flip_twice_witness:
  "PixelBuffer_invariant \<lparr>rows = 2, cols = 2, type = CV_8UC1, step = 3, data = [1, 2, 9, 3, 4, 8]\<rparr> \<and>
   cv_flip \<lparr>rows = 2, cols = 2, type = CV_8UC1, step = 3, data = [1, 2, 9, 3, 4, 8]\<rparr>
     = \<lparr>rows = 2, cols = 2, type = CV_8UC1, step = 3, data = [2, 1, 9, 4, 3, 8]\<rparr> \<and>
   cv_flip (cv_flip \<lparr>rows = 2, cols = 2, type = CV_8UC1, step = 3, data = [1, 2, 9, 3, 4, 8]\<rparr>)
     = \<lparr>rows = 2, cols = 2, type = CV_8UC1, step = 3, data = [1, 2, 9, 3, 4, 8]\<rparr>"
proof -
  let ?m = "\<lparr>rows = 2, cols = 2, type = CV_8UC1, step = 3, data = [1, 2, 9, 3, 4, 8]\<rparr>"
  have v: "PixelBuffer_invariant ?m"
    by (simp add: PixelBuffer_invariant_def elem_sizes)
  have f: "cv_flip ?m = \<lparr>rows = 2, cols = 2, type = CV_8UC1, step = 3, data = [2, 1, 9, 4, 3, 8]\<rparr>"
    by (simp add: cv_flip_def flip_row_def row_pixels_def mat_row_def elem_sizes upt_rec)
  show ?thesis using v f C6_flip_twice [OF v] by simp
qed

text \<open>
  C7. The mirror transform leaves rows, columns, step and type code, hence the encoding,
  as they were, and the payload as long as it was; in every row the pixel at column \<open>c\<close>
  of the result is the pixel at column \<open>cols - 1 - c\<close> of the source, and the bytes after
  the last pixel of the row are unchanged.
\<close>

theorem C7_flip_preserves_shape:
  assumes "PixelBuffer_invariant m"
  shows "rows (cv_flip m) = rows m \<and> cols (cv_flip m) = cols m \<and>
         step (cv_flip m) = step m \<and> type (cv_flip m) = type m \<and>
         mat_type2encoding (type (cv_flip m)) = mat_type2encoding (type m) \<and>
         length (data (cv_flip m)) = length (data m) \<and>
         (\<forall>r < nat (rows m).
            (\<forall>c < nat (cols m). pixel_at (cv_flip m) r c = pixel_at m r (nat (cols m) - 1 - c)) \<and>
            drop (nat (cols m) * CV_ELEM_SIZE (type m)) (mat_row (cv_flip m) r)
              = drop (nat (cols m) * CV_ELEM_SIZE (type m)) (mat_row m r))"
proof -
  have pad: "drop (nat (cols m) * CV_ELEM_SIZE (type m)) (mat_row (cv_flip m) r)
              = drop (nat (cols m) * CV_ELEM_SIZE (type m)) (mat_row m r)"
    if "r < nat (rows m)" for r
  proof -
    have "nat (cols m) * CV_ELEM_SIZE (type m) \<le> length (mat_row m r)"
      using PixelBuffer_invariantD [OF assms] that by (simp add: length_mat_row)
    then show ?thesis
      using that by (simp add: mat_row_cv_flip [OF assms] padding_flip_row)
  qed
  show ?thesis
    using length_data_cv_flip [OF assms] pixel_at_cv_flip [OF assms] pad by simp
qed

theorem C7_flip_preserves_shape_witness:
  "PixelBuffer_invariant \<lparr>rows = 1, cols = 2, type = CV_8UC3, step = 8, data = [1, 2, 3, 4, 5, 6, 9, 9]\<rparr> \<and>
   pixel_at (cv_flip \<lparr>rows = 1, cols = 2, type = CV_8UC3, step = 8, data = [1, 2, 3, 4, 5, 6, 9, 9]\<rparr>) 0 0
     = [4, 5, 6] \<and>
   step (cv_flip \<lparr>rows = 1, cols = 2, type = CV_8UC3, step = 8, data = [1, 2, 3, 4, 5, 6, 9, 9]\<rparr>) = 8"
proof -
  let ?m = "\<lparr>rows = 1, cols = 2, type = CV_8UC3, step = 8, data = [1, 2, 3, 4, 5, 6, 9, 9]\<rparr>"
  have v: "PixelBuffer_invariant ?m"
    by (simp add: PixelBuffer_invariant_def elem_sizes)
  have p: "pixel_at ?m 0 1 = [4, 5, 6]"
    by (simp add: pixel_at_def elem_sizes)
  from C7_flip_preserves_shape [OF v]
  have "step (cv_flip ?m) = 8" and "pixel_at (cv_flip ?m) 0 0 = pixel_at ?m 0 (nat (cols ?m) - 1 - 0)"
    by simp_all
  then show ?thesis using v p by simp
qed



text \<open>
  C9, as the program has it. An iteration that completes ends with \<^verbatim>\<open>spin_some\<close>, which
  leaves the flip state at the last value delivered, followed by the sleep, both once and
  after anything shown or published, and only then does the loop go on to the next tick;
  an iteration on an empty frame always completes and does nothing else. An iteration
  that throws, as every one on a non-empty frame of an unsupported type does, adds no
  event at all, so neither \<^verbatim>\<open>spin_some\<close> nor the sleep, leaves the flip state and the
  counter as they were, and ends the loop.
\<close>

theorem C9_drain_and_sleep:
  "(loop_body sc st t = Inr st' \<longrightarrow>
      (\<exists>evs. events st' = events st @ evs @ [SpinSome (pending t), Sleep]) \<and>
      (events st' = events st @ [SpinSome (pending t), Sleep]
       \<or> (\<exists>m. events st' = events st @ (if sc then [Imshow (grabbed t), WaitKey 1] else [])
                               @ [Publish m, SpinSome (pending t), Sleep])) \<and>
      is_flipped st' = (if pending t = [] then is_flipped st else last (pending t)) \<and>
      main_loop sc st (t # ts) = main_loop sc st' ts) \<and>
   (Mat_empty (grabbed t) \<longrightarrow>
      (\<exists>st'. loop_body sc st t = Inr st' \<and>
             events st' = events st @ [SpinSome (pending t), Sleep])) \<and>
   (loop_body sc st t = Inl x \<longrightarrow> main_loop sc st (t # ts) = Inl x) \<and>
   (loop_body sc st t = Inl (e, st'') \<longrightarrow>
      events st'' = events st \<and> is_flipped st'' = is_flipped st \<and> i st'' = i st) \<and>
   (\<not> Mat_empty (grabbed t) \<and> type (grabbed t) \<notin> {CV_8UC1, CV_8UC3, CV_16SC1, CV_8UC4} \<longrightarrow>
      (\<exists>st''. loop_body sc st t = Inl (UnsupportedEncoding, st'') \<and>
              events st'' = events st \<and> is_flipped st'' = is_flipped st))"
proof (intro conjI impI)
  assume r: "loop_body sc st t = Inr st'"
  show ex: "events st' = events st @ [SpinSome (pending t), Sleep]
       \<or> (\<exists>m. events st' = events st @ (if sc then [Imshow (grabbed t), WaitKey 1] else [])
                               @ [Publish m, SpinSome (pending t), Sleep])"
    using r by (cases rule: loop_body_cases [where t = t and sc = sc and st = st]) auto
  show "\<exists>evs. events st' = events st @ evs @ [SpinSome (pending t), Sleep]"
  proof -
    from ex consider "events st' = events st @ [] @ [SpinSome (pending t), Sleep]"
      | m where "events st' = events st
          @ ((if sc then [Imshow (grabbed t), WaitKey 1] else []) @ [Publish m])
          @ [SpinSome (pending t), Sleep]"
      by auto
    then show ?thesis by cases blast+
  qed
  show "is_flipped st' = (if pending t = [] then is_flipped st else last (pending t))"
    using r by (cases rule: loop_body_cases [where t = t and sc = sc and st = st]) auto
  show "main_loop sc st (t # ts) = main_loop sc st' ts"
    using r by simp
next
  assume "Mat_empty (grabbed t)"
  then show "\<exists>st'. loop_body sc st t = Inr st' \<and>
             events st' = events st @ [SpinSome (pending t), Sleep]"
    by (simp add: loop_body_empty)
next
  assume "loop_body sc st t = Inl x"
  then show "main_loop sc st (t # ts) = Inl x" by simp
next
  assume r: "loop_body sc st t = Inl (e, st'')"
  then have "events st'' = events st \<and> is_flipped st'' = is_flipped st \<and> i st'' = i st"
    by (cases rule: loop_body_cases [where t = t and sc = sc and st = st]) auto
  then show "events st'' = events st" "is_flipped st'' = is_flipped st" "i st'' = i st"
    by simp_all
next
  assume a: "\<not> Mat_empty (grabbed t) \<and> type (grabbed t) \<notin> {CV_8UC1, CV_8UC3, CV_16SC1, CV_8UC4}"
  then have "convert_frame_to_message (if is_flipped st then cv_flip (grabbed t) else grabbed t)
          (i st) (Image_init\<lparr>is_bigendian := False\<rparr>) = Inl UnsupportedEncoding"
    using unsupported_type [of "type (grabbed t)"]
    by (simp add: convert_frame_to_message_unsupported)
  from loop_body_throw [OF _ this, of sc] a
  show "\<exists>st''. loop_body sc st t = Inl (UnsupportedEncoding, st'') \<and>
              events st'' = events st \<and> is_flipped st'' = is_flipped st"
    by simp
qed

theorem C9_drain_and_sleep_witness:
  "Mat_empty (grabbed \<lparr>grabbed = Mat_init, pending = [True]\<rparr>) \<and>
   (\<exists>st'. loop_body False initial_state \<lparr>grabbed = Mat_init, pending = [True]\<rparr> = Inr st' \<and>
          events st' = events initial_state @ [SpinSome [True], Sleep] \<and>
          is_flipped st' = True) \<and>
   \<not> Mat_empty \<lparr>rows = 1, cols = 1, type = CV_MAKETYPE CV_16U 1, step = 2, data = [0, 0]\<rparr> \<and>
   CV_MAKETYPE CV_16U 1 \<notin> {CV_8UC1, CV_8UC3, CV_16SC1, CV_8UC4} \<and>
   (\<exists>st''. loop_body False initial_state
        \<lparr>grabbed = \<lparr>rows = 1, cols = 1, type = CV_MAKETYPE CV_16U 1, step = 2, data = [0, 0]\<rparr>,
         pending = [True]\<rparr> = Inl (UnsupportedEncoding, st'') \<and>
      events st'' = events initial_state \<and> is_flipped st'' = is_flipped initial_state)"
proof -
  let ?t = "\<lparr>grabbed = Mat_init, pending = [True]\<rparr>"
  let ?b = "\<lparr>grabbed = \<lparr>rows = 1, cols = 1, type = CV_MAKETYPE CV_16U 1, step = 2, data = [0, 0]\<rparr>,
         pending = [True]\<rparr>"
  have e: "Mat_empty (grabbed ?t)" by (simp add: Mat_empty_def Mat_init_def)
  from C9_drain_and_sleep [of False initial_state ?t _ "[]"] e obtain st' where
    a: "loop_body False initial_state ?t = Inr st'"
    and b: "events st' = events initial_state @ [SpinSome (pending ?t), Sleep]"
    by blast
  from C9_drain_and_sleep [of False initial_state ?t st' "[]"] a
  have f: "is_flipped st' = (if pending ?t = [] then is_flipped initial_state else last (pending ?t))"
    by blast
  have first: "\<exists>st'. loop_body False initial_state ?t = Inr st' \<and>
          events st' = events initial_state @ [SpinSome [True], Sleep] \<and> is_flipped st' = True"
    using a b f by simp
  have bad: "\<not> Mat_empty (grabbed ?b) \<and> type (grabbed ?b) \<notin> {CV_8UC1, CV_8UC3, CV_16SC1, CV_8UC4}"
    using bad_frame_facts by simp
  from C9_drain_and_sleep [of False initial_state ?b _ "[]"] bad
  have second: "\<exists>st''. loop_body False initial_state ?b = Inl (UnsupportedEncoding, st'') \<and>
      events st'' = events initial_state \<and> is_flipped st'' = is_flipped initial_state"
    by blast
  show ?thesis using e first second bad_frame_facts by simp
qed

text \<open>
  C9 as stated fails: on a tick whose frame has the unsupported type \<^verbatim>\<open>CV_16UC1\<close> the
  program leaves the loop with no \<^verbatim>\<open>spin_some\<close> and no sleep; the pending toggle is not
  applied.
\<close>

theorem C9_counterexample:
  "loop_body False initial_state
     \<lparr>grabbed = \<lparr>rows = 1, cols = 1, type = CV_MAKETYPE CV_16U 1, step = 2, data = [0, 0]\<rparr>,
      pending = [True]\<rparr>
   = Inl (UnsupportedEncoding,
          \<lparr>is_flipped = False,
           frame = \<lparr>rows = 1, cols = 1, type = CV_MAKETYPE CV_16U 1, step = 2, data = [0, 0]\<rparr>,
           flipped_frame = Mat_init, i = 1, events = []\<rparr>)"
  by (simp add: loop_body_def build_message_def convert_frame_to_message_def
      mat_type2encoding_def Mat_empty_def initial_state_def type_codes CV_MAKETYPE_def
      UnsupportedEncoding_def)

end
